theory Spec2Isabelle
  imports Main "HOL-Library.Word" "HOL-Library.Sublist" "HOL-Library.Monad_Syntax"
begin

unbundle bit_operations_syntax

section \<open>Parallelism selection (ufgcommon/process.py)\<close>

text \<open>
  \<^verbatim>\<open>get_process_count(recommended_count, process_max, num_tasks)\<close>. The call
  \<^verbatim>\<open>multiprocessing.cpu_count()\<close> reads the machine, so its value is the
  first parameter of the model. Python integers are unbounded: \<^typ>\<open>int\<close>.
\<close>

definition get_process_count :: "int \<Rightarrow> int \<Rightarrow> int \<Rightarrow> int \<Rightarrow> int" where
  "get_process_count cpu_count recommended_count process_max num_tasks =
     (let process_count = cpu_count;
          process_count = (if recommended_count > 0 then recommended_count else process_count);
          process_max = (if process_max > 0 then min process_max num_tasks else num_tasks)
      in max (min process_count process_max) 1)"

text \<open>
  The specification's formula, written from its words:
  \<^verbatim>\<open>clamp(requested>0 ? requested : hardware, 1, process_max>0 ? min(process_max, job_count) : job_count)\<close>.
\<close>

definition clamp :: "int \<Rightarrow> int \<Rightarrow> int \<Rightarrow> int" where
  "clamp v lo hi = max lo (min v hi)"

definition P_effective :: "int \<Rightarrow> int \<Rightarrow> int" where
  "P_effective cpu_count requested = (if requested > 0 then requested else cpu_count)"

definition max_effective :: "int \<Rightarrow> int \<Rightarrow> int" where
  "max_effective process_max job_count =
     (if process_max > 0 then min process_max job_count else job_count)"

definition spec_process_count :: "int \<Rightarrow> int \<Rightarrow> int \<Rightarrow> int \<Rightarrow> int" where
  "spec_process_count cpu_count requested process_max job_count =
     clamp (P_effective cpu_count requested) 1 (max_effective process_max job_count)"

section \<open>Text (Python \<^verbatim>\<open>str\<close> methods used by ufgcommon)\<close>

text \<open>
  Process output is text. A \<^typ>\<open>string\<close> is the sequence of its code points, here
  the code points below 256; each has its Python meaning (letters and their case,
  digits, white space, line boundaries).
\<close>

text \<open>
  The lower-case form of a code point: the letters \<open>A\<close> to \<open>Z\<close>, and the upper-case
  letters U+00C0 to U+00DE (all but the sign U+00D7), are 32 below their lower-case
  forms.
\<close>

definition lower_char :: "char \<Rightarrow> char" where
  "lower_char c =
     (let n = (of_char c :: nat)
      in if (65 \<le> n \<and> n \<le> 90) \<or> (192 \<le> n \<and> n \<le> 222 \<and> n \<noteq> 215)
         then char_of (n + 32) else c)"

text \<open>\<^verbatim>\<open>s.lower()\<close>\<close>

definition lower :: "string \<Rightarrow> string" where
  "lower s = map lower_char s"

text \<open>\<^verbatim>\<open>sub in s\<close>: \<open>sub\<close> occurs in \<open>s\<close> as a contiguous run.\<close>

fun contains :: "string \<Rightarrow> string \<Rightarrow> bool" where
  "contains sub [] = (sub = [])"
| "contains sub (c # cs) = (prefix sub (c # cs) \<or> contains sub cs)"

text \<open>
  \<^verbatim>\<open>s.splitlines(keepends)\<close>: the line boundaries are \<open>\n\<close>, \<open>\r\<close>, \<open>\r\n\<close>,
  \<open>\v\<close>, \<open>\f\<close>, the separators \<open>\x1c\<close>, \<open>\x1d\<close>, \<open>\x1e\<close> and the next-line
  character \<open>\x85\<close>; no empty line follows a final boundary.
\<close>

definition is_linebreak :: "char \<Rightarrow> bool" where
  "is_linebreak c = ((of_char c :: nat) \<in> {10, 11, 12, 13, 28, 29, 30, 133})"

fun splitlines_from :: "bool \<Rightarrow> string \<Rightarrow> string \<Rightarrow> string list" where
  "splitlines_from keepends cur [] = (if cur = [] then [] else [cur])"
| "splitlines_from keepends cur (c # cs) =
     (if c = CHR 0x0D \<and> cs \<noteq> [] \<and> hd cs = CHR 0x0A
        then (if keepends then cur @ [c, CHR 0x0A] else cur) # splitlines_from keepends [] (tl cs)
      else if is_linebreak c
        then (if keepends then cur @ [c] else cur) # splitlines_from keepends [] cs
      else splitlines_from keepends (cur @ [c]) cs)"

definition splitlines :: "bool \<Rightarrow> string \<Rightarrow> string list" where
  "splitlines keepends s = splitlines_from keepends [] s"

text \<open>\<^verbatim>\<open>s.replace(old, new)\<close> for a one-character \<open>old\<close> and an empty \<open>new\<close>.\<close>

definition remove_char :: "char \<Rightarrow> string \<Rightarrow> string" where
  "remove_char c s = filter (\<lambda>x. x \<noteq> c) s"

text \<open>\<^verbatim>\<open>s.rstrip(chars)\<close>: drop the longest suffix made of characters of \<open>chars\<close>.\<close>

definition rstrip :: "string \<Rightarrow> string \<Rightarrow> string" where
  "rstrip chars s = rev (dropWhile (\<lambda>x. x \<in> set chars) (rev s))"

text \<open>\<^verbatim>\<open>'%s' % n\<close> for an integer: decimal digits, a minus sign when negative.\<close>

definition digit_char :: "nat \<Rightarrow> char" where
  "digit_char d = (if d < 10 then char_of (48 + d) else char_of (55 + d))"

fun str_nat :: "nat \<Rightarrow> string" where
  "str_nat n = (if n < 10 then [digit_char n] else str_nat (n div 10) @ [digit_char (n mod 10)])"

declare str_nat.simps [simp del]

definition str_int :: "int \<Rightarrow> string" where
  "str_int i = (if i < 0 then CHR ''-'' # str_nat (nat (- i)) else str_nat (nat i))"

text \<open>The number a string of decimal digits denotes (used to state results).\<close>

definition dec_value :: "string \<Rightarrow> nat" where
  "dec_value s = foldl (\<lambda>acc c. 10 * acc + ((of_char c :: nat) - 48)) 0 s"

text \<open>\<^verbatim>\<open>'%X' % n\<close> for \<open>n \<ge> 0\<close>: upper-case hexadecimal digits, no padding.\<close>

fun hex_nat :: "nat \<Rightarrow> string" where
  "hex_nat n = (if n < 16 then [digit_char n] else hex_nat (n div 16) @ [digit_char (n mod 16)])"

declare hex_nat.simps [simp del]

text \<open>The number a string of upper-case hexadecimal digits denotes (used to state results).\<close>

definition hex_digit_value :: "char \<Rightarrow> nat" where
  "hex_digit_value c = (let n = (of_char c :: nat) in if n < 58 then n - 48 else n - 55)"

definition hex_value :: "string \<Rightarrow> nat" where
  "hex_value s = foldl (\<lambda>acc c. 16 * acc + hex_digit_value c) 0 s"

definition is_hex_digit :: "char \<Rightarrow> bool" where
  "is_hex_digit c =
     (let n = (of_char c :: nat) in (48 \<le> n \<and> n \<le> 57) \<or> (65 \<le> n \<and> n \<le> 70))"

section \<open>Utilities (ufgcommon/util.py)\<close>

text \<open>
  \<^verbatim>\<open>uhex32(value)\<close>:
  \<^verbatim>\<open>'%s' % ('00000000%X' % (value & 0xffffffff))[-8:]\<close>. Python's \<open>&\<close> on a negative
  integer works on its two's complement, as \<open>AND\<close> on \<^typ>\<open>int\<close> does.
\<close>

definition uhex32 :: "int \<Rightarrow> string" where
  "uhex32 v =
     (let s = ''00000000'' @ hex_nat (nat (v AND 0xffffffff))
      in drop (length s - 8) s)"

subsection \<open>The tag pattern\<close>

text \<open>
  \<^verbatim>\<open>TAG_REGEX = re.compile(r'\[[A-Z0-9]+_(INFO|WARN|ERROR)_[A-Z0-9_]+\]\s*$')\<close>.
  A pattern is modelled as a backtracking matcher: applied to the rest of the input it
  returns the list of the rests that remain after each way of matching, in the order
  Python's matcher tries them (a greedy repetition tries the longest run first, an
  alternation its branches from left to right). Sequencing is the list monad.
  The match Python reports is the first success.
\<close>

text \<open>
  \<open>\s\<close> in a pattern over text: the characters for which \<^verbatim>\<open>str.isspace\<close> holds,
  that is \<open>\t\<close>, \<open>\n\<close>, \<open>\v\<close>, \<open>\f\<close>, \<open>\r\<close>, \<open>\x1c\<close> to \<open>\x1f\<close>, the space,
  \<open>\x85\<close> and the no-break space \<open>\xa0\<close>. \<open>[A-Z0-9]\<close> is ASCII only.
\<close>

definition is_space :: "char \<Rightarrow> bool" where
  "is_space c = ((of_char c :: nat) \<in> {9, 10, 11, 12, 13, 28, 29, 30, 31, 32, 133, 160})"

definition is_upper_digit :: "char \<Rightarrow> bool" where
  "is_upper_digit c =
     (let n = (of_char c :: nat) in (65 \<le> n \<and> n \<le> 90) \<or> (48 \<le> n \<and> n \<le> 57))"

definition is_upper_digit_us :: "char \<Rightarrow> bool" where
  "is_upper_digit_us c = (is_upper_digit c \<or> c = CHR ''_'')"

text \<open>One literal character.\<close>

definition re_chr :: "char \<Rightarrow> string \<Rightarrow> string list" where
  "re_chr c s = (case s of [] \<Rightarrow> [] | x # xs \<Rightarrow> if x = c then [xs] else [])"

text \<open>\<open>[class]+\<close> and \<open>[class]*\<close>, greedy.\<close>

definition re_plus :: "(char \<Rightarrow> bool) \<Rightarrow> string \<Rightarrow> string list" where
  "re_plus P s = map (\<lambda>k. drop k s) (rev [1..<Suc (length (takeWhile P s))])"

definition re_star :: "(char \<Rightarrow> bool) \<Rightarrow> string \<Rightarrow> string list" where
  "re_star P s = map (\<lambda>k. drop k s) (rev [0..<Suc (length (takeWhile P s))])"

text \<open>A capturing group of literal alternatives: the word matched and the rest.\<close>

definition re_alt :: "string list \<Rightarrow> string \<Rightarrow> (string \<times> string) list" where
  "re_alt ws s = map (\<lambda>w. (w, drop (length w) s)) (filter (\<lambda>w. prefix w s) ws)"

text \<open>\<open>$\<close> without MULTILINE: at the end of the text, or before a newline that ends it.\<close>

definition re_eol :: "string \<Rightarrow> string list" where
  "re_eol s = (if s = [] \<or> s = [CHR 0x0A] then [s] else [])"

text \<open>The pattern: each success is group 1 and the unmatched rest of the input.\<close>

definition TAG_REGEX :: "string \<Rightarrow> (string \<times> string) list" where
  "TAG_REGEX s = do {
     s1 \<leftarrow> re_chr CHR ''['' s;
     s2 \<leftarrow> re_plus is_upper_digit s1;
     s3 \<leftarrow> re_chr CHR ''_'' s2;
     (g1, s4) \<leftarrow> re_alt [''INFO'', ''WARN'', ''ERROR''] s3;
     s5 \<leftarrow> re_chr CHR ''_'' s4;
     s6 \<leftarrow> re_plus is_upper_digit_us s5;
     s7 \<leftarrow> re_chr CHR '']'' s6;
     s8 \<leftarrow> re_star is_space s7;
     s9 \<leftarrow> re_eol s8;
     [(g1, s9)]
   }"

text \<open>
  \<^verbatim>\<open>pattern.search(line)\<close>: the first success at the leftmost start position;
  the result is \<open>(group(0), group(1))\<close>.
\<close>

fun re_search :: "(string \<Rightarrow> (string \<times> string) list) \<Rightarrow> string \<Rightarrow> (string \<times> string) option" where
  "re_search r [] = (case r [] of (g1, rest) # _ \<Rightarrow> Some ([], g1) | [] \<Rightarrow> None)"
| "re_search r (c # cs) =
     (case r (c # cs) of
        (g1, rest) # _ \<Rightarrow> Some (take (length (c # cs) - length rest) (c # cs), g1)
      | [] \<Rightarrow> re_search r cs)"

subsection \<open>Severity and tag of a line\<close>

definition SEVERITY_UNKNOWN :: int where "SEVERITY_UNKNOWN = -1"
definition SEVERITY_INFO :: int where "SEVERITY_INFO = 0"
definition SEVERITY_WARN :: int where "SEVERITY_WARN = 1"
definition SEVERITY_ERROR :: int where "SEVERITY_ERROR = 2"
definition SEVERITY_COUNT :: nat where "SEVERITY_COUNT = 3"

text \<open>
  \<^verbatim>\<open>get_message_tag(line)\<close>. With a match, \<^verbatim>\<open>tag = found.group(0)\<close> and
  \<^verbatim>\<open>code = tag[1:len(tag)-1]\<close>; without one the lower-cased line is searched for
  \<open>error:\<close>, then \<open>warning:\<close>.
\<close>

definition get_message_tag :: "string \<Rightarrow> int \<times> string option" where
  "get_message_tag line =
     (case re_search TAG_REGEX line of
        Some (tag, severity) \<Rightarrow>
          (let code = drop 1 (take (length tag - 1) tag) in
           if severity = ''ERROR'' then (SEVERITY_ERROR, Some code)
           else if severity = ''WARN'' then (SEVERITY_WARN, Some code)
           else (SEVERITY_INFO, Some code))
      | None \<Rightarrow>
          (let line_lower = lower line in
           if contains ''error:'' line_lower then (SEVERITY_ERROR, None)
           else if contains ''warning:'' line_lower then (SEVERITY_WARN, None)
           else (SEVERITY_UNKNOWN, None)))"

subsection \<open>TagTracker\<close>

text \<open>
  A Python \<open>dict\<close> from tag code to count is a list of key-value pairs in insertion
  order; two dicts are equal when they map the same keys to the same values
  (\<open>dict_eq\<close>), whatever the order.

  \<^verbatim>\<open>add_in_dictionary(d, key, value)\<close>: \<^verbatim>\<open>d[key] += value\<close> when the key is
  present, \<^verbatim>\<open>d[key] = value\<close> otherwise.
\<close>

type_synonym dict = "(string \<times> int) list"

definition add_in_dictionary :: "dict \<Rightarrow> string \<Rightarrow> int \<Rightarrow> dict" where
  "add_in_dictionary d key v =
     (if key \<in> set (map fst d)
      then map (\<lambda>(k, x). if k = key then (k, x + v) else (k, x)) d
      else d @ [(key, v)])"

definition dict_eq :: "dict \<Rightarrow> dict \<Rightarrow> bool" where
  "dict_eq d e = (map_of d = map_of e)"

text \<open>
  \<^verbatim>\<open>class TagTracker\<close>: \<open>totals\<close>, a list of \<open>SEVERITY_COUNT\<close> integers, and
  \<open>tag_totals\<close>, a list of \<open>SEVERITY_COUNT\<close> dicts, both indexed by severity.
\<close>

record TagTracker =
  totals :: "int list"
  tag_totals :: "dict list"

definition TagTracker_init :: TagTracker where
  "TagTracker_init =
     \<lparr>totals = replicate SEVERITY_COUNT 0, tag_totals = replicate SEVERITY_COUNT []\<rparr>"

text \<open>
  \<^verbatim>\<open>add_from_tracker(self, tracker)\<close>: the body of the loop over the severities,
  then the loop. The inner loop over \<^verbatim>\<open>tracker.tag_totals[severity].items()\<close> is
  \<open>add_items\<close>.
\<close>

definition add_items :: "dict \<Rightarrow> dict \<Rightarrow> dict" where
  "add_items items d = fold (\<lambda>(tag, plus_total) d. add_in_dictionary d tag plus_total) items d"

definition add_from_tracker_severity :: "TagTracker \<Rightarrow> TagTracker \<Rightarrow> nat \<Rightarrow> TagTracker" where
  "add_from_tracker_severity tracker self severity =
     self\<lparr>totals := (totals self)[severity := totals self ! severity + totals tracker ! severity],
          tag_totals := (tag_totals self)[severity :=
             add_items (tag_totals tracker ! severity) (tag_totals self ! severity)]\<rparr>"

definition add_from_tracker :: "TagTracker \<Rightarrow> TagTracker \<Rightarrow> TagTracker" where
  "add_from_tracker self tracker =
     fold (\<lambda>severity s. add_from_tracker_severity tracker s severity) [0..<SEVERITY_COUNT] self"

text \<open>
  \<^verbatim>\<open>add_from_output(self, output)\<close>: the body of the loop over the lines
  (\<^verbatim>\<open>if tag:\<close> holds for a tag that is neither \<open>None\<close> nor empty), then the loop.
  A severity indexes the lists only where it is 0, 1 or 2.
\<close>

definition add_from_line :: "string \<Rightarrow> TagTracker \<Rightarrow> TagTracker" where
  "add_from_line line self =
     (let (severity, tag) = get_message_tag line;
          self = (case tag of
                    Some t \<Rightarrow>
                      if t \<noteq> [] then
                        self\<lparr>tag_totals := (tag_totals self)[nat severity :=
                               add_in_dictionary (tag_totals self ! nat severity) t 1]\<rparr>
                      else self
                  | None \<Rightarrow> self)
      in if severity \<noteq> SEVERITY_UNKNOWN
         then self\<lparr>totals := (totals self)[nat severity := totals self ! nat severity + 1]\<rparr>
         else self)"

definition add_from_output :: "TagTracker \<Rightarrow> string \<Rightarrow> TagTracker" where
  "add_from_output self output = fold add_from_line (splitlines False output) self"

text \<open>\<^verbatim>\<open>TagTracker.from_output(output)\<close>\<close>

definition from_output :: "string \<Rightarrow> TagTracker" where
  "from_output output = add_from_output TagTracker_init output"

text \<open>Two trackers are equal: equal totals and, per severity, equal dicts.\<close>

definition tracker_eq :: "TagTracker \<Rightarrow> TagTracker \<Rightarrow> bool" where
  "tracker_eq a b = (totals a = totals b \<and> list_all2 dict_eq (tag_totals a) (tag_totals b))"

text \<open>
  The trackers a program can build: the empty one, and the results of
  \<open>add_from_output\<close> and \<open>add_from_tracker\<close> on trackers built before.
\<close>

inductive reachable :: "TagTracker \<Rightarrow> bool" where
  reach_init: "reachable TagTracker_init"
| reach_output: "reachable t \<Longrightarrow> reachable (add_from_output t out)"
| reach_tracker: "reachable t \<Longrightarrow> reachable u \<Longrightarrow> reachable (add_from_tracker t u)"

text \<open>Notions used in the proofs: the sum of two mappings, and the class invariant.\<close>

definition merge_map :: "(string \<rightharpoonup> int) \<Rightarrow> (string \<rightharpoonup> int) \<Rightarrow> (string \<rightharpoonup> int)" where
  "merge_map m n = (\<lambda>k. case n k of None \<Rightarrow> m k
                        | Some v \<Rightarrow> (case m k of None \<Rightarrow> Some v | Some u \<Rightarrow> Some (u + v)))"

definition wf_tracker :: "TagTracker \<Rightarrow> bool" where
  "wf_tracker t = (length (totals t) = 3 \<and> length (tag_totals t) = 3 \<and>
                   (\<forall>d \<in> set (tag_totals t). distinct (map fst d)))"

definition tracker_inv :: "TagTracker \<Rightarrow> bool" where
  "tracker_inv t =
     (wf_tracker t \<and>
      (\<forall>i<3. (\<forall>p \<in> set (tag_totals t ! i). 0 < snd p) \<and>
              sum_list (map snd (tag_totals t ! i)) \<le> totals t ! i))"

section \<open>Tasks (ufgcommon/task.py)\<close>

text \<open>
  \<^verbatim>\<open>class Task\<close>: the description of a conversion (\<open>name\<close>, \<open>src\<close>, \<open>dst\<close>, \<open>args\<close>,
  \<open>csv_index\<close>, \<open>section\<close>) and its completion state (\<open>success\<close>, \<open>command\<close>,
  \<open>output\<close>; the last two are \<open>None\<close> until the task has run). The fields carry the
  prefix \<open>task_\<close>.
\<close>

record Task =
  task_name :: string
  task_src :: string
  task_dst :: string
  task_args :: "string list"
  task_csv_index :: nat
  task_section :: "string option"
  task_success :: bool
  task_command :: "string option"
  task_output :: "string option"

text \<open>\<^verbatim>\<open>Task.__init__(name, src, dst, args, csv_index, section)\<close>\<close>

definition Task_init :: "string \<Rightarrow> string \<Rightarrow> string \<Rightarrow> string list \<Rightarrow> nat \<Rightarrow> string option \<Rightarrow> Task" where
  "Task_init name src dst args csv_index sec =
     \<lparr>task_name = name, task_src = src, task_dst = dst, task_args = args,
      task_csv_index = csv_index, task_section = sec,
      task_success = False, task_command = None, task_output = None\<rparr>"

section \<open>Running processes (ufgcommon/process.py)\<close>

text \<open>
  A process started by \<^verbatim>\<open>subprocess.Popen\<close>, as the scheduler sees it: \<open>polls_left\<close>
  is the number of calls of \<^verbatim>\<open>poll()\<close> that still answer \<open>None\<close> (the process is
  running); \<^verbatim>\<open>communicate()\<close> waits for the end and returns the two captured
  streams, here as decoded text; \<open>returncode\<close> is the exit code.
\<close>

record Process =
  polls_left :: nat
  proc_stdout :: string
  proc_stderr :: string
  returncode :: int

text \<open>
  \<^verbatim>\<open>get_process_command(cmd_args)\<close>: the arguments joined by spaces, an argument
  with a space in it between double quotes.
\<close>

definition quote_arg :: "string \<Rightarrow> string" where
  "quote_arg arg = (if CHR '' '' \<in> set arg then [CHR 0x22] @ arg @ [CHR 0x22] else arg)"

fun get_process_command_from :: "string \<Rightarrow> nat \<Rightarrow> string list \<Rightarrow> string" where
  "get_process_command_from cmd arg_index [] = cmd"
| "get_process_command_from cmd arg_index (arg # rest) =
     (let cmd = (if arg_index > 0 then cmd @ '' '' else cmd);
          cmd = cmd @ quote_arg arg
      in get_process_command_from cmd (arg_index + 1) rest)"

definition get_process_command :: "string list \<Rightarrow> string" where
  "get_process_command cmd_args = get_process_command_from [] 0 cmd_args"

text \<open>
  \<^verbatim>\<open>get_process_output(cmd_stdout, cmd_stderr)\<close>: both streams with the carriage
  returns removed, stdout first, and the trailing \<open>\n\<close> and \<open>\r\<close> stripped.
\<close>

definition get_process_output :: "string \<Rightarrow> string \<Rightarrow> string" where
  "get_process_output cmd_stdout cmd_stderr =
     (let text = [];
          text = (if cmd_stdout \<noteq> [] then text @ remove_char (CHR 0x0D) cmd_stdout else text);
          text = (if cmd_stderr \<noteq> [] then text @ remove_char (CHR 0x0D) cmd_stderr else text)
      in rstrip [CHR 0x0A, CHR 0x0D] text)"

text \<open>
  \<^verbatim>\<open>wait_and_update_task(process, task, cmd_args)\<close>: nothing for an empty slot;
  otherwise the task's completion state is set from the process. The text appended to
  the output of a failure without \<open>error\<close> in it is \<open>exit_code_line\<close>. The echo of the
  command and output to the console is left out.
\<close>

definition exit_code_line :: "int \<Rightarrow> string" where
  "exit_code_line code =
     [CHR 0x0A] @ ''ERROR: Exit code '' @ str_int code @ '' (0x'' @ uhex32 code @ '').'' @
     (if code AND 0xffffffff = 0xc0000005 then '' [Access Violation]'' else [])"

definition wait_and_update_task :: "Process option \<Rightarrow> Task \<Rightarrow> string list \<Rightarrow> Task" where
  "wait_and_update_task process task cmd_args =
     (case process of
        None \<Rightarrow> task
      | Some p \<Rightarrow>
          (let code = returncode p;
               task = (if code = 0 then task\<lparr>task_success := True\<rparr> else task);
               task = task\<lparr>task_command := Some (get_process_command cmd_args)\<rparr>;
               out = get_process_output (proc_stdout p) (proc_stderr p);
               task = task\<lparr>task_output := Some out\<rparr>
           in if \<not> task_success task \<and> \<not> contains ''error'' (lower out)
              then task\<lparr>task_output := Some (out @ exit_code_line code)\<rparr>
              else task))"

text \<open>
  The reading of ``error-severity text'' that the tag tracker gives: some line of
  the output has severity \<open>SEVERITY_ERROR\<close>.
\<close>

definition has_error_severity_line :: "string \<Rightarrow> bool" where
  "has_error_severity_line out =
     list_ex (\<lambda>line. fst (get_message_tag line) = SEVERITY_ERROR) (splitlines False out)"

section \<open>The test driver (ufgtest.py)\<close>



text \<open>
  The last lines of \<^verbatim>\<open>main\<close>:
  \<^verbatim>\<open>err = 0; if failed_tasks: err |= 1; if mismatch_total or missing_total or extra_total: err |= 2\<close>.
  A Python list is true when it is not empty, an integer when it is not zero.
\<close>

definition exit_status :: "'a list \<Rightarrow> int \<Rightarrow> int \<Rightarrow> int \<Rightarrow> int" where
  "exit_status failed_tasks mismatch_total missing_total extra_total =
     (let err = 0;
          err = (if failed_tasks \<noteq> [] then err OR 1 else err);
          err = (if mismatch_total \<noteq> 0 \<or> missing_total \<noteq> 0 \<or> extra_total \<noteq> 0
                 then err OR 2 else err)
      in err)"


section \<open>Theorems: parallelism selection\<close>

lemma get_process_count_lower: "1 \<le> get_process_count c r m n"
  by (simp add: get_process_count_def Let_def)

lemma get_process_count_spec:
  "get_process_count c r m n = spec_process_count c r m n"
  by (simp add: get_process_count_def spec_process_count_def clamp_def P_effective_def
      max_effective_def Let_def max.commute)

lemma get_process_count_upper:
  assumes "1 \<le> c" and "1 \<le> n"
  shows "get_process_count c r m n \<le> min (P_effective c r) (min (max_effective m n) n)"
  using assms
  by (auto simp add: get_process_count_def P_effective_def max_effective_def Let_def)

text \<open>
  Claim C2 as stated fails when the job count is 0: the result is 1, above the bound
  \<open>min(P_effective, max_effective, J) = 0\<close>.
\<close>

theorem get_process_count_zero_jobs_counterexample:
  "get_process_count 8 10 64 0 = 1 \<and>
   \<not> get_process_count 8 10 64 0 \<le> min (P_effective 8 10) (min (max_effective 64 0) 0)"
  by (simp add: get_process_count_def P_effective_def max_effective_def Let_def)

text \<open>
  Claim C2, amended: for all inputs \<open>get_process_count\<close> equals the clamp formula
  (with \<open>clamp v lo hi = max lo (min v hi)\<close>) and is at least 1; when the hardware
  count and the job count are both at least 1, it is at most
  \<open>min(P_effective, max_effective, J)\<close>; and \<open>get_process_count(10, 64, 3) = 3\<close>,
  \<open>get_process_count(10, 0, 3) = 3\<close> on every machine.
\<close>

theorem get_process_count_clamp_bounds:
  "get_process_count c r m n = spec_process_count c r m n \<and>
   1 \<le> get_process_count c r m n \<and>
   (1 \<le> c \<and> 1 \<le> n \<longrightarrow>
      get_process_count c r m n \<le> min (P_effective c r) (min (max_effective m n) n)) \<and>
   get_process_count c 10 64 3 = 3 \<and> get_process_count c 10 0 3 = 3"
proof -
  have ex: "get_process_count c 10 64 3 = 3" "get_process_count c 10 0 3 = 3"
    by (simp_all add: get_process_count_def Let_def)
  show ?thesis
    using get_process_count_spec [of c r m n] get_process_count_lower [of c r m n]
      get_process_count_upper [of c n r m] ex
    by blast
qed

theorem get_process_count_clamp_bounds_witness:
  "get_process_count 4 0 64 5 = 4 \<and> spec_process_count 4 0 64 5 = 4 \<and>
   (1::int) \<le> 4 \<and> (1::int) \<le> 5 \<and>
   get_process_count 4 0 64 5 \<le> min (P_effective 4 0) (min (max_effective 64 5) 5) \<and>
   get_process_count 4 10 64 3 = 3"
  using get_process_count_clamp_bounds [of 4 0 64 5]
  by (simp add: get_process_count_def Let_def)

section \<open>Lemmas: dictionaries and trackers\<close>

lemma map_of_bump:
  "map_of (map (\<lambda>(k, x). if k = key then (k, x + v) else (k, x)) d) k' =
     (if k' = key then map_option (\<lambda>u. u + v) (map_of d key) else map_of d k')"
  by (induction d) auto

lemma map_of_add_in_dictionary:
  "map_of (add_in_dictionary d key v) =
     (map_of d)(key \<mapsto> (case map_of d key of None \<Rightarrow> v | Some u \<Rightarrow> u + v))"
proof (cases "key \<in> set (map fst d)")
  case False
  then have "map_of d key = None" by (simp add: map_of_eq_None_iff)
  with False show ?thesis
    by (auto simp add: add_in_dictionary_def fun_eq_iff map_add_def split: option.splits)
next
  case True
  then obtain u where "map_of d key = Some u"
    by (metis map_of_eq_None_iff not_Some_eq set_map)
  with True show ?thesis
    by (auto simp add: add_in_dictionary_def fun_eq_iff map_of_bump)
qed

lemma keys_add_in_dictionary:
  "map fst (add_in_dictionary d key v) = (if key \<in> set (map fst d) then map fst d else map fst d @ [key])"
  by (auto simp add: add_in_dictionary_def split: prod.splits)

lemma distinct_add_in_dictionary:
  "distinct (map fst d) \<Longrightarrow> distinct (map fst (add_in_dictionary d key v))"
  by (simp add: keys_add_in_dictionary)

lemma sum_add_in_dictionary:
  assumes "distinct (map fst d)"
  shows "sum_list (map snd (add_in_dictionary d key v)) = sum_list (map snd d) + v"
proof (cases "key \<in> set (map fst d)")
  case False
  then show ?thesis by (simp add: add_in_dictionary_def)
next
  case True
  have "sum_list (map snd (map (\<lambda>(k, x). if k = key then (k, x + v) else (k, x)) d)) =
        sum_list (map snd d) + v"
    if "key \<in> set (map fst d)" "distinct (map fst d)"
    using that
  proof (induction d)
    case Nil
    then show ?case by simp
  next
    case (Cons a d)
    show ?case
    proof (cases "fst a = key")
      case True
      with Cons.prems have "key \<notin> set (map fst d)" by auto
      then have "map (\<lambda>(k, x). if k = key then (k, x + v) else (k, x)) d = d"
        by (induction d) auto
      with True show ?thesis by (cases a) simp
    next
      case False
      with Cons show ?thesis by (cases a) auto
    qed
  qed
  with True assms show ?thesis by (simp add: add_in_dictionary_def)
qed

lemma values_add_in_dictionary:
  assumes "\<forall>p \<in> set d. 0 < snd p" and "0 < v"
  shows "\<forall>p \<in> set (add_in_dictionary d key v). 0 < snd p"
  using assms by (auto simp add: add_in_dictionary_def split: if_splits)



lemma add_items_simps:
  "add_items [] d = d"
  "add_items ((k, v) # items) d = add_items items (add_in_dictionary d k v)"
  by (simp_all add: add_items_def)

lemma distinct_add_items:
  "distinct (map fst d) \<Longrightarrow> distinct (map fst (add_items items d))"
  by (induction items arbitrary: d) (auto simp add: add_items_simps distinct_add_in_dictionary)

lemma sum_add_items:
  "distinct (map fst d) \<Longrightarrow>
   sum_list (map snd (add_items items d)) = sum_list (map snd d) + sum_list (map snd items)"
  by (induction items arbitrary: d)
     (auto simp add: add_items_simps distinct_add_in_dictionary sum_add_in_dictionary)

lemma values_add_items:
  "\<forall>p \<in> set d. 0 < snd p \<Longrightarrow> \<forall>p \<in> set items. 0 < snd p \<Longrightarrow>
   \<forall>p \<in> set (add_items items d). 0 < snd p"
proof (induction items arbitrary: d)
  case Nil
  then show ?case by (simp add: add_items_simps)
next
  case (Cons a items)
  obtain k v where a: "a = (k, v)" by (cases a)
  with Cons.prems have "0 < v" by simp
  with Cons.prems have "\<forall>p \<in> set (add_in_dictionary d k v). 0 < snd p"
    using values_add_in_dictionary by blast
  with Cons show ?case by (simp add: a add_items_simps)
qed

lemma merge_map_update:
  "m' k = None \<Longrightarrow>
   merge_map (m(k \<mapsto> (case m k of None \<Rightarrow> v | Some u \<Rightarrow> u + v))) m' = merge_map m (m'(k \<mapsto> v))"
  by (auto simp add: merge_map_def fun_eq_iff split: option.splits)

lemma map_of_add_items:
  "distinct (map fst items) \<Longrightarrow>
   map_of (add_items items d) = merge_map (map_of d) (map_of items)"
proof (induction items arbitrary: d)
  case Nil
  then show ?case by (simp add: add_items_simps merge_map_def)
next
  case (Cons a items)
  obtain k v where a: "a = (k, v)" by (cases a)
  with Cons.prems have nk: "map_of items k = None" and di: "distinct (map fst items)"
    by (auto simp add: map_of_eq_None_iff)
  have "map_of (add_items (a # items) d) =
        merge_map (map_of (add_in_dictionary d k v)) (map_of items)"
    using Cons.IH [OF di] by (simp add: a add_items_simps)
  also have "\<dots> = merge_map (map_of d) ((map_of items)(k \<mapsto> v))"
    using merge_map_update [of "map_of items" k "map_of d" v] nk
    by (simp add: map_of_add_in_dictionary)
  also have "(map_of items)(k \<mapsto> v) = map_of (a # items)"
    by (simp add: a fun_eq_iff)
  finally show ?case .
qed

lemma merge_map_commute: "merge_map m n = merge_map n m"
  by (auto simp add: merge_map_def fun_eq_iff split: option.splits)

lemma merge_map_assoc: "merge_map (merge_map m n) p = merge_map m (merge_map n p)"
  by (auto simp add: merge_map_def fun_eq_iff split: option.splits)

lemma list3: "length xs = 3 \<Longrightarrow> \<exists>a b c. xs = [a, b, c]"
  by (cases xs; cases "tl xs"; cases "tl (tl xs)") auto

lemma upt3: "[0..<SEVERITY_COUNT] = [0, 1, 2]"
  by (simp add: SEVERITY_COUNT_def upt_rec)

lemma add_from_tracker_totals:
  assumes "length (totals a) = 3"
  shows "totals (add_from_tracker a b) =
         [totals a ! 0 + totals b ! 0, totals a ! 1 + totals b ! 1, totals a ! 2 + totals b ! 2]"
proof -
  from list3 [OF assms] obtain x y z where "totals a = [x, y, z]" by blast
  then show ?thesis
    by (simp add: add_from_tracker_def upt3 add_from_tracker_severity_def)
qed

lemma add_from_tracker_tag_totals:
  assumes "length (tag_totals a) = 3"
  shows "tag_totals (add_from_tracker a b) =
         [add_items (tag_totals b ! 0) (tag_totals a ! 0),
          add_items (tag_totals b ! 1) (tag_totals a ! 1),
          add_items (tag_totals b ! 2) (tag_totals a ! 2)]"
proof -
  from list3 [OF assms] obtain x y z where "tag_totals a = [x, y, z]" by blast
  then show ?thesis
    by (simp add: add_from_tracker_def upt3 add_from_tracker_severity_def)
qed

lemma wf_nth: "wf_tracker t \<Longrightarrow> i < 3 \<Longrightarrow> distinct (map fst (tag_totals t ! i))"
  by (simp add: wf_tracker_def)

lemma wf_add_from_tracker:
  assumes "wf_tracker a" "wf_tracker b"
  shows "wf_tracker (add_from_tracker a b)"
proof -
  have l: "length (totals a) = 3" "length (tag_totals a) = 3"
    using assms by (simp_all add: wf_tracker_def)
  show ?thesis
    using assms
    by (simp add: wf_tracker_def add_from_tracker_totals [OF l(1)]
        add_from_tracker_tag_totals [OF l(2)] distinct_add_items wf_nth)
qed


lemma get_message_tag_cases:
  assumes "get_message_tag line = (sev, tag)"
  shows "(tag = None \<and> (sev = SEVERITY_ERROR \<or> sev = SEVERITY_WARN \<or> sev = SEVERITY_UNKNOWN)) \<or>
         (tag \<noteq> None \<and> (sev = SEVERITY_ERROR \<or> sev = SEVERITY_WARN \<or> sev = SEVERITY_INFO))"
  using assms
  by (auto simp add: get_message_tag_def Let_def split: option.splits prod.splits if_splits)

lemma add_from_line_shape:
  obtains
    (unknown) "add_from_line line t = t"
  | (untagged) j where "j < 3"
      "add_from_line line t = t\<lparr>totals := (totals t)[j := totals t ! j + 1]\<rparr>"
  | (tagged) j c where "j < 3"
      "add_from_line line t =
         t\<lparr>tag_totals := (tag_totals t)[j := add_in_dictionary (tag_totals t ! j) c 1],
           totals := (totals t)[j := totals t ! j + 1]\<rparr>"
proof -
  obtain sev tag where g: "get_message_tag line = (sev, tag)" by (cases "get_message_tag line")
  from get_message_tag_cases [OF g]
  consider "tag = None" "sev = SEVERITY_UNKNOWN"
    | "tag = None \<or> tag = Some []" "sev \<noteq> SEVERITY_UNKNOWN" "nat sev < 3"
    | c where "tag = Some c" "c \<noteq> []" "sev \<noteq> SEVERITY_UNKNOWN" "nat sev < 3"
    by (cases tag; cases "tag = Some []")
       (auto simp add: SEVERITY_ERROR_def SEVERITY_WARN_def SEVERITY_INFO_def SEVERITY_UNKNOWN_def)
  then show thesis
  proof cases
    case 1
    then have "add_from_line line t = t" by (simp add: add_from_line_def g)
    then show ?thesis by (rule unknown)
  next
    case 2
    then have "add_from_line line t =
       t\<lparr>totals := (totals t)[nat sev := totals t ! nat sev + 1]\<rparr>"
      by (auto simp add: add_from_line_def g)
    with 2 show ?thesis using untagged by blast
  next
    case 3
    then have "add_from_line line t =
       t\<lparr>tag_totals := (tag_totals t)[nat sev := add_in_dictionary (tag_totals t ! nat sev) c 1],
         totals := (totals t)[nat sev := totals t ! nat sev + 1]\<rparr>"
      by (simp add: add_from_line_def g)
    with 3 show ?thesis using tagged by blast
  qed
qed

lemma tracker_inv_add_from_line:
  assumes "tracker_inv t"
  shows "tracker_inv (add_from_line line t)"
proof (cases rule: add_from_line_shape [of line t])
  case unknown
  with assms show ?thesis by simp
next
  case (untagged j)
  have "tracker_inv (t\<lparr>totals := (totals t)[j := totals t ! j + 1]\<rparr>)"
    using assms untagged(1)
    by (auto simp add: tracker_inv_def wf_tracker_def nth_list_update)
  with untagged show ?thesis by simp
next
  case (tagged j c)
  let ?d = "add_in_dictionary (tag_totals t ! j) c 1"
  have dj: "distinct (map fst (tag_totals t ! j))"
    using assms tagged(1) by (simp add: tracker_inv_def wf_nth)
  have pj: "\<forall>p \<in> set (tag_totals t ! j). 0 < snd p"
    and sj: "sum_list (map snd (tag_totals t ! j)) \<le> totals t ! j"
    using assms tagged(1) by (simp_all add: tracker_inv_def)
  have d1: "distinct (map fst ?d)" using dj by (rule distinct_add_in_dictionary)
  have d2: "\<forall>p \<in> set ?d. 0 < snd p" using values_add_in_dictionary [OF pj, where v = 1 and key = c] by simp
  have d3: "sum_list (map snd ?d) \<le> totals t ! j + 1"
    using sum_add_in_dictionary [OF dj, of c 1] sj by simp
  have len: "length (totals t) = 3" "length (tag_totals t) = 3"
    using assms by (simp_all add: tracker_inv_def wf_tracker_def)
  have wf: "wf_tracker (t\<lparr>tag_totals := (tag_totals t)[j := ?d],
                          totals := (totals t)[j := totals t ! j + 1]\<rparr>)"
    using assms d1
    by (auto simp add: tracker_inv_def wf_tracker_def dest!: set_update_subset_insert [THEN subsetD])
  have "tracker_inv (t\<lparr>tag_totals := (tag_totals t)[j := ?d],
                         totals := (totals t)[j := totals t ! j + 1]\<rparr>)"
    unfolding tracker_inv_def
  proof (intro conjI allI impI)
    show "wf_tracker (t\<lparr>tag_totals := (tag_totals t)[j := ?d],
                          totals := (totals t)[j := totals t ! j + 1]\<rparr>)" by (rule wf)
  next
    fix i :: nat assume "i < 3"
    then show "\<forall>p\<in>set (tag_totals (t\<lparr>tag_totals := (tag_totals t)[j := ?d],
                  totals := (totals t)[j := totals t ! j + 1]\<rparr>) ! i). 0 < snd p"
      using assms d2 len tagged(1) by (cases "i = j") (simp_all add: tracker_inv_def)
  next
    fix i :: nat assume "i < 3"
    then show "sum_list (map snd (tag_totals (t\<lparr>tag_totals := (tag_totals t)[j := ?d],
                  totals := (totals t)[j := totals t ! j + 1]\<rparr>) ! i))
               \<le> totals (t\<lparr>tag_totals := (tag_totals t)[j := ?d],
                  totals := (totals t)[j := totals t ! j + 1]\<rparr>) ! i"
      using assms d3 len tagged(1) by (cases "i = j") (simp_all add: tracker_inv_def)
  qed
  with tagged show ?thesis by simp
qed

lemma tracker_inv_fold_lines:
  "tracker_inv t \<Longrightarrow> tracker_inv (fold add_from_line ls t)"
  by (induction ls arbitrary: t) (simp_all add: tracker_inv_add_from_line)

lemma tracker_inv_add_from_output:
  "tracker_inv t \<Longrightarrow> tracker_inv (add_from_output t out)"
  by (simp add: add_from_output_def tracker_inv_fold_lines)

lemma tracker_inv_init: "tracker_inv TagTracker_init"
  by (simp add: tracker_inv_def wf_tracker_def TagTracker_init_def SEVERITY_COUNT_def
      nth_replicate)

lemma nth3: "i < 3 \<Longrightarrow> [a, b, c] ! i = (if i = 0 then a else if i = 1 then b else c)"
  by (cases i; cases "i - 1") auto

lemma tracker_inv_add_from_tracker:
  assumes "tracker_inv a" "tracker_inv b"
  shows "tracker_inv (add_from_tracker a b)"
proof -
  have wa: "wf_tracker a" and wb: "wf_tracker b" using assms by (simp_all add: tracker_inv_def)
  have l: "length (totals a) = 3" "length (tag_totals a) = 3"
    using wa by (simp_all add: wf_tracker_def)
  have step: "(\<forall>p \<in> set (add_items (tag_totals b ! i) (tag_totals a ! i)). 0 < snd p) \<and>
        sum_list (map snd (add_items (tag_totals b ! i) (tag_totals a ! i)))
          \<le> totals a ! i + totals b ! i" if "i < 3" for i
  proof -
    have "distinct (map fst (tag_totals a ! i))" using wa that by (rule wf_nth)
    then have "sum_list (map snd (add_items (tag_totals b ! i) (tag_totals a ! i))) =
               sum_list (map snd (tag_totals a ! i)) + sum_list (map snd (tag_totals b ! i))"
      by (rule sum_add_items)
    moreover have "sum_list (map snd (tag_totals a ! i)) \<le> totals a ! i"
      "sum_list (map snd (tag_totals b ! i)) \<le> totals b ! i"
      using assms that by (simp_all add: tracker_inv_def)
    moreover have "\<forall>p \<in> set (add_items (tag_totals b ! i) (tag_totals a ! i)). 0 < snd p"
      using assms that by (intro values_add_items) (simp_all add: tracker_inv_def)
    ultimately show ?thesis by simp
  qed
  show ?thesis
    unfolding tracker_inv_def
    using wf_add_from_tracker [OF wa wb] step [of 0] step [of 1] step [of 2]
    by (auto simp add: add_from_tracker_totals [OF l(1)] add_from_tracker_tag_totals [OF l(2)]
        nth3)
qed

lemma reachable_inv: "reachable t \<Longrightarrow> tracker_inv t"
  by (induction rule: reachable.induct)
     (simp_all add: tracker_inv_init tracker_inv_add_from_output tracker_inv_add_from_tracker)

section \<open>Theorems: TagTracker\<close>

lemma tracker_inv_wf: "tracker_inv t \<Longrightarrow> wf_tracker t"
  by (simp add: tracker_inv_def)

lemma from_output_reachable: "reachable (from_output out)"
  unfolding from_output_def by (intro reachable.intros)

lemma wf_from_output: "wf_tracker (from_output out)"
  by (intro tracker_inv_wf reachable_inv from_output_reachable)

lemma wf_lengths: "wf_tracker t \<Longrightarrow> length (totals t) = 3 \<and> length (tag_totals t) = 3"
  by (simp add: wf_tracker_def)

lemma less3: "i < (3::nat) \<Longrightarrow> i = 0 \<or> i = 1 \<or> i = 2"
  by arith

lemma map_of_merged:
  assumes "wf_tracker a" "wf_tracker b" "i < 3"
  shows "map_of (tag_totals (add_from_tracker a b) ! i) =
         merge_map (map_of (tag_totals a ! i)) (map_of (tag_totals b ! i))"
proof -
  have "distinct (map fst (tag_totals b ! i))" using assms(2,3) by (rule wf_nth)
  then have "map_of (add_items (tag_totals b ! i) (tag_totals a ! i)) =
             merge_map (map_of (tag_totals a ! i)) (map_of (tag_totals b ! i))"
    by (rule map_of_add_items)
  moreover have "length (tag_totals a) = 3" using assms(1) by (simp add: wf_tracker_def)
  ultimately show ?thesis
    using less3 [OF assms(3)] by (auto simp add: add_from_tracker_tag_totals)
qed

lemma totals_merged:
  assumes "wf_tracker a" "i < 3"
  shows "totals (add_from_tracker a b) ! i = totals a ! i + totals b ! i"
proof -
  have "length (totals a) = 3" using assms(1) by (simp add: wf_tracker_def)
  then show ?thesis using less3 [OF assms(2)] by (auto simp add: add_from_tracker_totals)
qed

lemma tracker_eqI:
  assumes "wf_tracker a" "wf_tracker b"
    and "\<And>i. i < 3 \<Longrightarrow> totals a ! i = totals b ! i"
    and "\<And>i. i < 3 \<Longrightarrow> map_of (tag_totals a ! i) = map_of (tag_totals b ! i)"
  shows "tracker_eq a b"
proof -
  have la: "length (totals a) = 3" "length (tag_totals a) = 3"
    and lb: "length (totals b) = 3" "length (tag_totals b) = 3"
    using assms(1,2) by (simp_all add: wf_tracker_def)
  have "totals a = totals b"
    using la(1) lb(1) assms(3) by (intro nth_equalityI) simp_all
  moreover have "list_all2 dict_eq (tag_totals a) (tag_totals b)"
    using la(2) lb(2) assms(4) by (simp add: list_all2_conv_all_nth dict_eq_def)
  ultimately show ?thesis by (simp add: tracker_eq_def)
qed

lemma merge_assoc_wf:
  assumes a: "wf_tracker a" and b: "wf_tracker b" and c: "wf_tracker c"
  shows "tracker_eq (add_from_tracker (add_from_tracker a b) c)
                    (add_from_tracker a (add_from_tracker b c))"
proof (rule tracker_eqI)
  note ab = wf_add_from_tracker [OF a b] and bc = wf_add_from_tracker [OF b c]
  show "wf_tracker (add_from_tracker (add_from_tracker a b) c)"
    using ab c by (rule wf_add_from_tracker)
  show "wf_tracker (add_from_tracker a (add_from_tracker b c))"
    using a bc by (rule wf_add_from_tracker)
  show "totals (add_from_tracker (add_from_tracker a b) c) ! i =
        totals (add_from_tracker a (add_from_tracker b c)) ! i" if "i < 3" for i
    using that by (simp add: totals_merged a b ab)
  show "map_of (tag_totals (add_from_tracker (add_from_tracker a b) c) ! i) =
        map_of (tag_totals (add_from_tracker a (add_from_tracker b c)) ! i)" if "i < 3" for i
    using that by (simp add: map_of_merged a b c ab bc merge_map_assoc)
qed

lemma merge_commute_wf:
  assumes a: "wf_tracker a" and b: "wf_tracker b"
  shows "tracker_eq (add_from_tracker a b) (add_from_tracker b a)"
proof (rule tracker_eqI)
  show "wf_tracker (add_from_tracker a b)" using a b by (rule wf_add_from_tracker)
  show "wf_tracker (add_from_tracker b a)" using b a by (rule wf_add_from_tracker)
  show "totals (add_from_tracker a b) ! i = totals (add_from_tracker b a) ! i" if "i < 3" for i
    using that by (simp add: totals_merged a b)
  show "map_of (tag_totals (add_from_tracker a b) ! i) =
        map_of (tag_totals (add_from_tracker b a) ! i)" if "i < 3" for i
    using that by (simp add: map_of_merged a b merge_map_commute)
qed

lemma merge_swap_wf:
  assumes a: "wf_tracker a" and b: "wf_tracker b" and c: "wf_tracker c"
  shows "tracker_eq (add_from_tracker (add_from_tracker a b) c)
                    (add_from_tracker (add_from_tracker a c) b)"
proof (rule tracker_eqI)
  note ab = wf_add_from_tracker [OF a b] and ac = wf_add_from_tracker [OF a c]
  show "wf_tracker (add_from_tracker (add_from_tracker a b) c)"
    using ab c by (rule wf_add_from_tracker)
  show "wf_tracker (add_from_tracker (add_from_tracker a c) b)"
    using ac b by (rule wf_add_from_tracker)
  show "totals (add_from_tracker (add_from_tracker a b) c) ! i =
        totals (add_from_tracker (add_from_tracker a c) b) ! i" if "i < 3" for i
    using that by (simp add: totals_merged a ab ac)
  have "merge_map (merge_map m n) p = merge_map (merge_map m p) n" for m n p
    using merge_map_assoc [of m n p] merge_map_assoc [of m p n] merge_map_commute [of n p]
    by simp
  then show "map_of (tag_totals (add_from_tracker (add_from_tracker a b) c) ! i) =
        map_of (tag_totals (add_from_tracker (add_from_tracker a c) b) ! i)" if "i < 3" for i
    using that by (simp add: map_of_merged a b c ab ac)
qed

text \<open>
  Claim C6: for trackers \<open>A\<close>, \<open>B\<close>, \<open>C\<close> built from any three output texts,
  \<open>(A merge B) merge C\<close>, \<open>A merge (B merge C)\<close> and \<open>(A merge C) merge B\<close> have equal
  totals per severity and equal tag-code-to-count mappings per severity; and
  \<open>A merge B\<close> equals \<open>B merge A\<close>.
\<close>

theorem add_from_tracker_assoc_commute:
  "tracker_eq (add_from_tracker (add_from_tracker (from_output a) (from_output b)) (from_output c))
              (add_from_tracker (from_output a) (add_from_tracker (from_output b) (from_output c))) \<and>
   tracker_eq (add_from_tracker (add_from_tracker (from_output a) (from_output b)) (from_output c))
              (add_from_tracker (add_from_tracker (from_output a) (from_output c)) (from_output b)) \<and>
   tracker_eq (add_from_tracker (from_output a) (from_output b))
              (add_from_tracker (from_output b) (from_output a))"
  by (intro conjI merge_assoc_wf merge_swap_wf merge_commute_wf wf_from_output)

theorem add_from_tracker_assoc_commute_witness:
  "tracker_eq
     (add_from_tracker (add_from_tracker (from_output ''[A_ERROR_X]'') (from_output ''[B_WARN_Y]''))
        (from_output ''[A_ERROR_X]''))
     (add_from_tracker (from_output ''[A_ERROR_X]'')
        (add_from_tracker (from_output ''[B_WARN_Y]'') (from_output ''[A_ERROR_X]''))) \<and>
   totals (add_from_tracker (add_from_tracker (from_output ''[A_ERROR_X]'')
        (from_output ''[B_WARN_Y]'')) (from_output ''[A_ERROR_X]'')) = [0, 1, 2]"
proof -
  have "totals (add_from_tracker (add_from_tracker (from_output ''[A_ERROR_X]'')
        (from_output ''[B_WARN_Y]'')) (from_output ''[A_ERROR_X]'')) = [0, 1, 2]"
    by code_simp
  then show ?thesis
    using add_from_tracker_assoc_commute [of "''[A_ERROR_X]''" "''[B_WARN_Y]''" "''[A_ERROR_X]''"]
    by simp
qed

text \<open>
  Claim C10: in every tracker reachable from the empty one by \<open>add_from_output\<close> and
  \<open>add_from_tracker\<close>, for every severity the total is at least the sum of the counts
  of the severity's dict, whose keys are distinct, and no count is negative.
\<close>

theorem reachable_totals_bound:
  assumes "reachable t" and "severity < SEVERITY_COUNT"
  shows "sum_list (map snd (tag_totals t ! severity)) \<le> totals t ! severity \<and>
         distinct (map fst (tag_totals t ! severity)) \<and>
         (\<forall>(tag, count) \<in> set (tag_totals t ! severity). 0 \<le> count)"
proof -
  from assms(1) have inv: "tracker_inv t" by (rule reachable_inv)
  from assms(2) have s: "severity < 3" by (simp add: SEVERITY_COUNT_def)
  from inv s have "\<forall>p \<in> set (tag_totals t ! severity). 0 < snd p"
    by (simp add: tracker_inv_def)
  then have "\<forall>(tag, count) \<in> set (tag_totals t ! severity). 0 \<le> count"
    by fastforce
  with inv s show ?thesis
    by (simp add: tracker_inv_def wf_nth)
qed

theorem reachable_totals_bound_witness:
  "reachable (add_from_tracker
      (add_from_output TagTracker_init (''[A_ERROR_X]'' @ [CHR 0x0A] @ ''error: y''))
      (add_from_output TagTracker_init ''[A_ERROR_X]'')) \<and>
   (2::nat) < SEVERITY_COUNT \<and>
   totals (add_from_tracker
      (add_from_output TagTracker_init (''[A_ERROR_X]'' @ [CHR 0x0A] @ ''error: y''))
      (add_from_output TagTracker_init ''[A_ERROR_X]'')) ! 2 = 3 \<and>
   tag_totals (add_from_tracker
      (add_from_output TagTracker_init (''[A_ERROR_X]'' @ [CHR 0x0A] @ ''error: y''))
      (add_from_output TagTracker_init ''[A_ERROR_X]'')) ! 2 = [(''A_ERROR_X'', 2)] \<and>
   sum_list (map snd (tag_totals (add_from_tracker
      (add_from_output TagTracker_init (''[A_ERROR_X]'' @ [CHR 0x0A] @ ''error: y''))
      (add_from_output TagTracker_init ''[A_ERROR_X]'')) ! 2))
     \<le> totals (add_from_tracker
      (add_from_output TagTracker_init (''[A_ERROR_X]'' @ [CHR 0x0A] @ ''error: y''))
      (add_from_output TagTracker_init ''[A_ERROR_X]'')) ! 2"
proof -
  let ?t = "add_from_tracker
      (add_from_output TagTracker_init (''[A_ERROR_X]'' @ [CHR 0x0A] @ ''error: y''))
      (add_from_output TagTracker_init ''[A_ERROR_X]'')"
  have r: "reachable ?t" by (intro reachable.intros)
  have c: "(2::nat) < SEVERITY_COUNT" by (simp add: SEVERITY_COUNT_def)
  have v: "totals ?t ! 2 = 3" "tag_totals ?t ! 2 = [(''A_ERROR_X'', 2)]"
    by code_simp+
  show ?thesis
    using reachable_totals_bound [OF r c] r c v by simp
qed

section \<open>Lemmas: number formatting\<close>

lemma mask32: "(v::int) AND 0xffffffff = v mod 2 ^ 32"
proof -
  have "v AND mask 32 = v mod 2 ^ 32"
    by (simp add: take_bit_eq_mod flip: take_bit_eq_mask)
  then show ?thesis by (simp add: mask_eq_exp_minus_1)
qed

lemma hex_digit_value_digit_char: "d < 16 \<Longrightarrow> hex_digit_value (digit_char d) = d"
  by (auto simp add: hex_digit_value_def digit_char_def Let_def)

lemma is_hex_digit_digit_char: "d < 16 \<Longrightarrow> is_hex_digit (digit_char d)"
  by (auto simp add: is_hex_digit_def digit_char_def Let_def)

lemma hex_value_snoc: "hex_value (s @ [c]) = 16 * hex_value s + hex_digit_value c"
  by (simp add: hex_value_def)

lemma hex_value_hex_nat: "hex_value (hex_nat n) = n"
proof (induction n rule: hex_nat.induct)
  case (1 n)
  show ?case
  proof (cases "n < 16")
    case True
    then show ?thesis
      by (subst hex_nat.simps) (simp add: hex_value_def hex_digit_value_digit_char)
  next
    case False
    with 1 have "hex_value (hex_nat (n div 16)) = n div 16" by simp
    with False show ?thesis
      by (subst hex_nat.simps) (simp add: hex_value_snoc hex_digit_value_digit_char)
  qed
qed

lemma hex_nat_digits: "\<forall>c \<in> set (hex_nat n). is_hex_digit c"
proof (induction n rule: hex_nat.induct)
  case (1 n)
  show ?case
  proof (cases "n < 16")
    case True
    then show ?thesis by (subst hex_nat.simps) (simp add: is_hex_digit_digit_char)
  next
    case False
    with 1 have "\<forall>c \<in> set (hex_nat (n div 16)). is_hex_digit c" by simp
    with False show ?thesis
      by (subst hex_nat.simps) (simp add: is_hex_digit_digit_char)
  qed
qed

lemma hex_nat_length: "n < 16 ^ k \<Longrightarrow> 0 < k \<Longrightarrow> length (hex_nat n) \<le> k"
proof (induction n arbitrary: k rule: hex_nat.induct)
  case (1 n)
  show ?case
  proof (cases "n < 16")
    case True
    with 1(3) show ?thesis by (subst hex_nat.simps) simp
  next
    case False
    with 1(2,3) obtain j where k: "k = Suc j" by (cases k) auto
    with False 1(2) have j: "0 < j" by (cases j) auto
    from 1(2) k have "n div 16 < 16 ^ j"
      by (simp add: less_mult_imp_div_less mult.commute)
    with 1(1) False j have "length (hex_nat (n div 16)) \<le> j" by simp
    with False k show ?thesis by (subst hex_nat.simps) simp
  qed
qed

lemma hex_nat_nonempty: "hex_nat n \<noteq> []"
  by (subst hex_nat.simps) simp

lemma hex_value_zeros: "hex_value (replicate k (CHR ''0'') @ s) = hex_value s"
proof -
  have "foldl (\<lambda>acc c. 16 * acc + hex_digit_value c) 0 (replicate k (CHR ''0'')) = 0"
    by (induction k) (simp_all add: hex_digit_value_def)
  then show ?thesis by (simp add: hex_value_def)
qed

lemma uhex32_padded:
  "uhex32 v = replicate (8 - length (hex_nat (nat (v mod 2 ^ 32)))) (CHR ''0'') @
              hex_nat (nat (v mod 2 ^ 32))"
proof -
  let ?h = "hex_nat (nat (v mod 2 ^ 32))"
  have "nat (v mod 2 ^ 32) < 16 ^ 8" by (simp add: nat_less_iff)
  then have l: "length ?h \<le> 8" by (rule hex_nat_length) simp
  have z: "''00000000'' = replicate 8 (CHR ''0'')" by (simp add: eval_nat_numeral)
  have "uhex32 v = drop (length ?h) (replicate 8 (CHR ''0'') @ ?h)"
    unfolding uhex32_def Let_def z by (simp add: mask32)
  with l show ?thesis by simp
qed

lemma uhex32_format:
  "length (uhex32 v) = 8 \<and> (\<forall>c \<in> set (uhex32 v). is_hex_digit c) \<and>
   int (hex_value (uhex32 v)) = v mod 2 ^ 32"
proof -
  let ?h = "hex_nat (nat (v mod 2 ^ 32))"
  have "nat (v mod 2 ^ 32) < 16 ^ 8" by (simp add: nat_less_iff)
  then have l: "length ?h \<le> 8" by (rule hex_nat_length) simp
  have "is_hex_digit (CHR ''0'')" by (simp add: is_hex_digit_def)
  with l show ?thesis
    using hex_nat_digits [of "nat (v mod 2 ^ 32)"]
    by (auto simp add: uhex32_padded hex_value_zeros hex_value_hex_nat)
qed

lemma char_of_eqI: "of_char c = (n::nat) \<Longrightarrow> char_of n = c"
  by auto

lemma digit_chars:
  "digit_char 0 = CHR ''0''" "digit_char 1 = CHR ''1''" "digit_char 2 = CHR ''2''"
  "digit_char 3 = CHR ''3''" "digit_char 4 = CHR ''4''" "digit_char 5 = CHR ''5''"
  "digit_char 6 = CHR ''6''" "digit_char 7 = CHR ''7''" "digit_char 8 = CHR ''8''"
  "digit_char 9 = CHR ''9''" "digit_char 10 = CHR ''A''" "digit_char 11 = CHR ''B''"
  "digit_char 12 = CHR ''C''" "digit_char 13 = CHR ''D''" "digit_char 14 = CHR ''E''"
  "digit_char 15 = CHR ''F''" "digit_char (Suc 0) = CHR ''1''"
  by (simp_all add: digit_char_def char_of_eqI)

lemma dec_value_snoc: "dec_value (s @ [c]) = 10 * dec_value s + ((of_char c :: nat) - 48)"
  by (simp add: dec_value_def)

lemma dec_value_str_nat: "dec_value (str_nat n) = n"
proof (induction n rule: str_nat.induct)
  case (1 n)
  show ?case
  proof (cases "n < 10")
    case True
    then show ?thesis
      by (subst str_nat.simps) (simp add: dec_value_def digit_char_def)
  next
    case False
    with 1 have "dec_value (str_nat (n div 10)) = n div 10" by simp
    moreover have "(of_char (digit_char (n mod 10)) :: nat) - 48 = n mod 10"
      by (simp add: digit_char_def)
    ultimately show ?thesis
      using False by (subst str_nat.simps) (simp add: dec_value_snoc)
  qed
qed

lemma str_int_decimal:
  "str_int i = (if i < 0 then CHR ''-'' # str_nat (nat (- i)) else str_nat (nat i)) \<and>
   int (dec_value (str_nat (nat \<bar>i\<bar>))) = \<bar>i\<bar>"
  by (simp add: str_int_def dec_value_str_nat)

section \<open>Theorems: the exit-code diagnostic\<close>

lemma wait_and_update_task_fresh:
  assumes "\<not> task_success task"
  shows "wait_and_update_task (Some p) task cmd_args =
     task\<lparr>task_success := (returncode p = 0),
          task_command := Some (get_process_command cmd_args),
          task_output := Some (get_process_output (proc_stdout p) (proc_stderr p) @
            (if returncode p \<noteq> 0 \<and>
                \<not> contains ''error'' (lower (get_process_output (proc_stdout p) (proc_stderr p)))
             then exit_code_line (returncode p) else []))\<rparr>"
  using assms by (simp add: wait_and_update_task_def Let_def)

lemma wait_and_update_task_empty_slot: "wait_and_update_task None task cmd_args = task"
  by (simp add: wait_and_update_task_def)

text \<open>
  Claim C3 as stated fails when the output holds the word \<open>error\<close> outside any
  error-severity text: the process below exits with code 1, no line of its output
  \<open>0 errors\<close> has error severity (no tag, no \<open>error:\<close>), and yet no diagnostic line is
  appended.
\<close>

theorem exit_code_diagnostic_counterexample:
  "returncode \<lparr>polls_left = 0, proc_stdout = ''0 errors'', proc_stderr = [], returncode = 1\<rparr> \<noteq> 0 \<and>
   \<not> has_error_severity_line (get_process_output ''0 errors'' []) \<and>
   task_output (wait_and_update_task
      (Some \<lparr>polls_left = 0, proc_stdout = ''0 errors'', proc_stderr = [], returncode = 1\<rparr>)
      (Task_init ''t'' ''a.gltf'' ''out'' [] 0 None) [''exe'']) = Some ''0 errors''"
proof -
  have o: "get_process_output ''0 errors'' [] = ''0 errors''"
    by (simp add: get_process_output_def remove_char_def rstrip_def)
  have e: "\<not> has_error_severity_line ''0 errors''" by code_simp
  have c: "contains ''error'' (lower ''0 errors'')" by code_simp
  show ?thesis
    by (simp add: o e c wait_and_update_task_def Task_init_def Let_def)
qed

text \<open>
  Claim C3, amended: for a task that has not run (\<open>success\<close> is false), finalization
  sets \<open>success\<close> iff the exit code is 0, and when the exit code is not 0 and the
  captured output does not contain \<open>error\<close> in any letter case, it appends the line
  \<open>ERROR: Exit code <code> (0x<hex8>).\<close>, with the code in decimal and as the 8
  upper-case hexadecimal digits of the code modulo \<open>2^32\<close>, followed by
  \<open>[Access Violation]\<close> exactly when the code modulo \<open>2^32\<close> is \<open>0xc0000005\<close>; when the
  exit code is 0 or the output contains \<open>error\<close>, the output is the captured output
  unchanged.
\<close>

theorem exit_code_diagnostic:
  assumes "\<not> task_success task"
  shows "task_output (wait_and_update_task (Some p) task cmd_args) =
           Some (get_process_output (proc_stdout p) (proc_stderr p) @
             (if returncode p \<noteq> 0 \<and>
                 \<not> contains ''error'' (lower (get_process_output (proc_stdout p) (proc_stderr p)))
              then exit_code_line (returncode p) else [])) \<and>
         task_success (wait_and_update_task (Some p) task cmd_args) = (returncode p = 0) \<and>
         exit_code_line (returncode p) =
           [CHR 0x0A] @ ''ERROR: Exit code '' @ str_int (returncode p) @
           '' (0x'' @ uhex32 (returncode p) @ '').'' @
           (if returncode p mod 2 ^ 32 = 0xc0000005 then '' [Access Violation]'' else []) \<and>
         length (uhex32 (returncode p)) = 8 \<and>
         list_all is_hex_digit (uhex32 (returncode p)) \<and>
         int (hex_value (uhex32 (returncode p))) = returncode p mod 2 ^ 32 \<and>
         str_int (returncode p) =
           (if returncode p < 0 then CHR ''-'' # str_nat (nat (- returncode p))
            else str_nat (nat (returncode p))) \<and>
         int (dec_value (str_nat (nat \<bar>returncode p\<bar>))) = \<bar>returncode p\<bar>"
proof -
  have "exit_code_line (returncode p) =
           [CHR 0x0A] @ ''ERROR: Exit code '' @ str_int (returncode p) @
           '' (0x'' @ uhex32 (returncode p) @ '').'' @
           (if returncode p mod 2 ^ 32 = 0xc0000005 then '' [Access Violation]'' else [])"
    by (simp add: exit_code_line_def mask32)
  moreover have "list_all is_hex_digit (uhex32 (returncode p))"
    using uhex32_format [of "returncode p"] by (simp add: list_all_iff)
  ultimately show ?thesis
    using uhex32_format [of "returncode p"] str_int_decimal [of "returncode p"]
    by (simp only: wait_and_update_task_fresh [OF assms]) simp
qed

theorem exit_code_diagnostic_witness:
  "\<not> task_success (Task_init ''t'' ''a.gltf'' ''out'' [] 0 None) \<and>
   task_output (wait_and_update_task
      (Some \<lparr>polls_left = 0, proc_stdout = [], proc_stderr = [], returncode = - 1073741819\<rparr>)
      (Task_init ''t'' ''a.gltf'' ''out'' [] 0 None) [''exe'']) =
     Some ([CHR 0x0A] @ ''ERROR: Exit code -1073741819 (0xC0000005). [Access Violation]'') \<and>
   task_output (wait_and_update_task
      (Some \<lparr>polls_left = 0, proc_stdout = ''ok'', proc_stderr = [], returncode = 0\<rparr>)
      (Task_init ''t'' ''a.gltf'' ''out'' [] 0 None) [''exe'']) = Some ''ok''"
proof -
  let ?t = "Task_init ''t'' ''a.gltf'' ''out'' [] 0 None"
  have f: "\<not> task_success ?t" by (simp add: Task_init_def)
  have o: "get_process_output [] [] = []" "get_process_output ''ok'' [] = ''ok''"
    by (simp_all add: get_process_output_def remove_char_def rstrip_def)
  have l: "exit_code_line (- 1073741819) =
      [CHR 0x0A] @ ''ERROR: Exit code -1073741819 (0xC0000005). [Access Violation]''"
    by (simp add: exit_code_line_def uhex32_def hex_nat.simps str_int_def str_nat.simps
        digit_chars)
  have c: "\<not> contains ''error'' (lower [])" by (simp add: lower_def)
  note d1 = exit_code_diagnostic [OF f,
        of "\<lparr>polls_left = 0, proc_stdout = [], proc_stderr = [], returncode = - 1073741819\<rparr>"
           "[''exe'']", THEN conjunct1]
  note d2 = exit_code_diagnostic [OF f,
        of "\<lparr>polls_left = 0, proc_stdout = ''ok'', proc_stderr = [], returncode = 0\<rparr>"
           "[''exe'']", THEN conjunct1]
  show ?thesis
    using d1 d2 by (simp add: f o l c)
qed

section \<open>Theorems: severity and tag of a line\<close>

text \<open>The examples of the specification.\<close>

lemma get_message_tag_example_tag:
  "get_message_tag ''[FOO_ERROR_BAR123]'' = (SEVERITY_ERROR, Some ''FOO_ERROR_BAR123'')"
  by code_simp

lemma get_message_tag_example_warning:
  "get_message_tag ''Warning: disk low'' = (SEVERITY_WARN, None)"
  by code_simp

text \<open>Without a tag match the line is classified by its text.\<close>

lemma get_message_tag_untagged:
  assumes "re_search TAG_REGEX line = None"
  shows "get_message_tag line =
     (if contains ''error:'' (lower line) then (SEVERITY_ERROR, None)
      else if contains ''warning:'' (lower line) then (SEVERITY_WARN, None)
      else (SEVERITY_UNKNOWN, None))"
  using assms by (simp add: get_message_tag_def Let_def)

text \<open>A line of unknown severity changes no total and no tag count.\<close>

lemma add_from_line_unknown:
  assumes "fst (get_message_tag line) = SEVERITY_UNKNOWN"
  shows "add_from_line line t = t"
proof -
  obtain sev tag where g: "get_message_tag line = (sev, tag)" by (cases "get_message_tag line")
  with assms have "sev = SEVERITY_UNKNOWN" by simp
  moreover from get_message_tag_cases [OF g] this have "tag = None"
    by (auto simp add: SEVERITY_UNKNOWN_def SEVERITY_ERROR_def SEVERITY_WARN_def
        SEVERITY_INFO_def)
  ultimately show ?thesis by (simp add: add_from_line_def g)
qed

text \<open>
  Claim C5 fails on the code for a tagged line that ends in white space: the pattern
  allows the white space, \<open>group(0)\<close> includes it, and \<open>tag[1:len(tag)-1]\<close> then drops
  the last white-space character instead of the closing bracket. The tag code of
  \<open>[FOO_ERROR_BAR123]\<close> followed by one space is \<open>FOO_ERROR_BAR123]\<close>, not the
  bracketed text without its brackets.
\<close>

theorem get_message_tag_trailing_space:
  "get_message_tag ''[FOO_ERROR_BAR123] '' = (SEVERITY_ERROR, Some ''FOO_ERROR_BAR123]'') \<and>
   tag_totals (from_output ''[FOO_ERROR_BAR123] '') ! 2 = [(''FOO_ERROR_BAR123]'', 1)]"
  by code_simp

section \<open>Theorems: exit status\<close>

lemma exit_status_value:
  "exit_status f m mi e =
     (if f \<noteq> [] then 1 else 0) + (if m \<noteq> 0 \<or> mi \<noteq> 0 \<or> e \<noteq> 0 then 2 else 0)"
  by (simp add: exit_status_def Let_def)

lemma exit_status_bits:
  "(exit_status f m mi e AND 1 \<noteq> 0) = (f \<noteq> []) \<and>
   (exit_status f m mi e AND 2 \<noteq> 0) = (m \<noteq> 0 \<or> mi \<noteq> 0 \<or> e \<noteq> 0) \<and>
   exit_status f m mi e AND (NOT 3) = 0"
  by (simp add: exit_status_value)








end
